theory Spec2Isabelle
  imports
    Main
    "HOL-Library.Multiset"
    "HOL-Library.Char_ord"
    "HOL-Library.List_Lexorder"
begin

section \<open>Weekly projection charts: \<^verbatim>\<open>plot_projection.py\<close>\<close>

text \<open>
  The script loads a table, sums four metric columns per week and saves a figure with
  four line charts. Its three functions are \<^verbatim>\<open>load_dataset\<close>,
  \<^verbatim>\<open>plot_projections\<close> and \<^verbatim>\<open>main\<close>. They are written on top of pandas,
  matplotlib and pathlib; the parts of those libraries that the script calls are
  modelled here from their documented behaviour, each under the name of the call.
\<close>

subsection \<open>Exceptions\<close>

text \<open>
  The Python exceptions that the calls of the script raise. \<open>KeyError\<close> carries the
  column names that were not found; \<open>OtherError\<close> stands for whatever else a parser or
  an encoder of the libraries raises.
\<close>

datatype error =
    KeyError "string list"
  | TypeError
  | ValueError
  | FileNotFoundError
  | FileExistsError
  | NotADirectoryError
  | IsADirectoryError
  | OtherError string

subsection \<open>Tables\<close>

text \<open>
  A cell of a table is an integer, a string or a missing entry (\<open>NaN\<close>).
  Floating-point values are not represented: the model covers tables of integers and
  text. A table (\<open>DataFrame\<close>) has a header, the list of its column names, and rows;
  a row maps column names to cells, and a name the row does not carry reads as
  missing.
\<close>

datatype cell = Num int | Str string | NA

type_synonym row = "string \<rightharpoonup> cell"

record dataframe =
  columns :: "string list"
  rows :: "row list"

definition cell_at :: "row \<Rightarrow> string \<Rightarrow> cell" where
  "cell_at r c = (case r c of None \<Rightarrow> NA | Some v \<Rightarrow> v)"

fun is_num :: "cell \<Rightarrow> bool" where
  "is_num (Num n) = True"
| "is_num v = False"

fun is_str :: "cell \<Rightarrow> bool" where
  "is_str (Str s) = True"
| "is_str v = False"

fun num_of :: "cell \<Rightarrow> int" where
  "num_of (Num n) = n"
| "num_of v = 0"

fun str_of :: "cell \<Rightarrow> string" where
  "str_of (Str s) = s"
| "str_of v = []"

text \<open>The module constants.\<close>

definition METRICS :: "string list" where
  "METRICS = [''Venda'', ''Alvo'', ''Reposicao'', ''Estoque'']"

definition TITLES :: "string list" where
  "TITLES = [''Venda proj'', ''Alvo proj'',
     ''Reposi'' @ [CHR 0xC3, CHR 0xA7, CHR 0xC3, CHR 0xA3] @ ''o proj'', ''Estoque proj'']"

subsection \<open>\<^verbatim>\<open>df.groupby("Semana")[METRICS].sum().sort_index()\<close>\<close>

text \<open>
  \<open>groupby\<close> looks the key column up in the header and raises \<open>KeyError\<close> when it is
  not there. Without a selection the grouped object covers every other column.
\<close>

record grouped =
  obj :: dataframe
  key :: string
  sel :: "string list"

definition groupby :: "dataframe \<Rightarrow> string \<Rightarrow> error + grouped" where
  "groupby df k =
     (if k \<in> set (columns df)
      then Inr \<lparr>obj = df, key = k, sel = filter (\<lambda>c. c \<noteq> k) (columns df)\<rparr>
      else Inl (KeyError [k]))"

text \<open>
  Indexing the grouped object with a list of names selects those columns; names that
  are not in the header raise \<open>KeyError\<close> (``Columns not found'').
\<close>

definition getitem :: "grouped \<Rightarrow> string list \<Rightarrow> error + grouped" where
  "getitem g cs =
     (case filter (\<lambda>c. c \<notin> set (columns (obj g))) cs of
        [] \<Rightarrow> Inr (g\<lparr>sel := cs\<rparr>)
      | bad \<Rightarrow> Inl (KeyError bad))"

text \<open>
  pandas gives each column a dtype when the table is built, from the cells of the
  column: \<open>int64\<close> when all of them are integers of the signed 64-bit range,
  \<open>uint64\<close> when all are integers below \<open>2^64\<close>, none negative, and one is too large
  for \<open>int64\<close>; a string dtype when all that are present are strings; \<open>object\<close>
  otherwise, which holds Python objects. (pandas holds integers together with missing
  entries in floating point; that column is treated here as an object column, so its
  integers are added exactly, as the floating-point sum is while it stays below
  \<open>2^53\<close>.)
\<close>

datatype dtype = Int64 | UInt64 | Text | Object

definition in_int64 :: "int \<Rightarrow> bool" where
  "in_int64 n = (- 9223372036854775808 \<le> n \<and> n < 9223372036854775808)"

definition in_uint64 :: "int \<Rightarrow> bool" where
  "in_uint64 n = (0 \<le> n \<and> n < 18446744073709551616)"

definition column_dtype :: "cell list \<Rightarrow> dtype" where
  "column_dtype vs =
     (if list_all (\<lambda>v. is_num v \<and> in_int64 (num_of v)) vs then Int64
      else if list_all (\<lambda>v. is_num v \<and> in_uint64 (num_of v)) vs then UInt64
      else if list_all (\<lambda>v. is_str v \<or> v = NA) vs \<and> list_ex is_str vs then Text
      else Object)"

definition dtype_of :: "dataframe \<Rightarrow> string \<Rightarrow> dtype" where
  "dtype_of df c = column_dtype (map (\<lambda>r. cell_at r c) (rows df))"

text \<open>
  Integer addition in a 64-bit column wraps around silently: \<open>wrap64\<close> is the signed
  64-bit value of an integer, and \<open>overflow\<close> the value that an integer result takes
  in a column of the given dtype. Python's own integers do not overflow.
\<close>

definition wrap64 :: "int \<Rightarrow> int" where
  "wrap64 n = (n + 9223372036854775808) mod 18446744073709551616 - 9223372036854775808"

fun overflow :: "dtype \<Rightarrow> int \<Rightarrow> int" where
  "overflow Int64 n = wrap64 n"
| "overflow UInt64 n = n mod 18446744073709551616"
| "overflow dt n = n"

text \<open>
  \<open>sum\<close> adds the cells of each selected column within each group. The sum of two
  integers is their sum in the dtype of the column: it wraps around in a 64-bit
  column and is exact for Python's integers. Two strings are concatenated, and an
  integer and a string raise \<open>TypeError\<close>. Missing cells are skipped; the first cell
  that is present starts the sum. A group with no present cell sums to the empty
  string in a string column and to \<open>0\<close> otherwise.
\<close>

fun add_cells :: "dtype \<Rightarrow> cell \<Rightarrow> cell \<Rightarrow> error + cell" where
  "add_cells dt (Num a) (Num b) = Inr (Num (overflow dt (a + b)))"
| "add_cells dt (Str a) (Str b) = Inr (Str (a @ b))"
| "add_cells dt u v = Inl TypeError"

fun sum_from :: "dtype \<Rightarrow> cell \<Rightarrow> cell list \<Rightarrow> error + cell" where
  "sum_from dt acc [] = Inr acc"
| "sum_from dt acc (v # vs) =
     (if v = NA then sum_from dt acc vs
      else (case add_cells dt acc v of Inl e \<Rightarrow> Inl e | Inr acc' \<Rightarrow> sum_from dt acc' vs))"

fun sum_cells :: "dtype \<Rightarrow> cell list \<Rightarrow> error + cell" where
  "sum_cells dt [] = Inr (if dt = Text then Str [] else Num 0)"
| "sum_cells dt (v # vs) = (if v = NA then sum_cells dt vs else sum_from dt v vs)"

text \<open>
  The groups are the distinct key cells that are present: rows whose key is missing
  belong to no group (\<open>dropna=True\<close>). A group holds the rows with that key.
\<close>

definition group_keys :: "grouped \<Rightarrow> cell list" where
  "group_keys g = remdups (filter (\<lambda>v. v \<noteq> NA) (map (\<lambda>r. cell_at r (key g)) (rows (obj g))))"

definition group_rows :: "grouped \<Rightarrow> cell \<Rightarrow> row list" where
  "group_rows g k = filter (\<lambda>r. cell_at r (key g) = k) (rows (obj g))"

text \<open>
  The result of an aggregation is a table indexed by the key: one entry per group,
  the key cell and the sums of the selected columns, in the order of the selection.
  Each column is summed in its dtype in the table that was grouped.
\<close>

type_synonym indexed = "(cell \<times> (string \<times> cell) list) list"

fun sum_columns ::
  "dataframe \<Rightarrow> row list \<Rightarrow> string list \<Rightarrow> error + (string \<times> cell) list" where
  "sum_columns df rs [] = Inr []"
| "sum_columns df rs (c # cs) =
     (case sum_cells (dtype_of df c) (map (\<lambda>r. cell_at r c) rs) of
        Inl e \<Rightarrow> Inl e
      | Inr v \<Rightarrow>
          (case sum_columns df rs cs of Inl e \<Rightarrow> Inl e | Inr vs \<Rightarrow> Inr ((c, v) # vs)))"

fun sum_groups :: "grouped \<Rightarrow> cell list \<Rightarrow> error + indexed" where
  "sum_groups g [] = Inr []"
| "sum_groups g (k # ks) =
     (case sum_columns (obj g) (group_rows g k) (sel g) of
        Inl e \<Rightarrow> Inl e
      | Inr vs \<Rightarrow> (case sum_groups g ks of Inl e \<Rightarrow> Inl e | Inr w \<Rightarrow> Inr ((k, vs) # w)))"

definition gb_sum :: "grouped \<Rightarrow> error + indexed" where
  "gb_sum g = sum_groups g (group_keys g)"

text \<open>
  \<open>sort_index\<close> orders the entries by their key: numbers by value, strings by code
  points. Python cannot compare a number with a string, which raises \<open>TypeError\<close>.
  The order in which \<open>groupby\<close> itself lists the groups is not observable after this
  step, since the keys of the groups are distinct.
\<close>

definition sort_index :: "indexed \<Rightarrow> error + indexed" where
  "sort_index w =
     (if list_all (\<lambda>e. is_num (fst e)) w then Inr (sort_key (\<lambda>e. num_of (fst e)) w)
      else if list_all (\<lambda>e. is_str (fst e)) w then Inr (sort_key (\<lambda>e. str_of (fst e)) w)
      else Inl TypeError)"

text \<open>
  The selection \<^verbatim>\<open>df.groupby("Semana")[METRICS]\<close>, which is evaluated before the
  aggregation, and the whole expression bound to \<^verbatim>\<open>weekly\<close>.
\<close>

definition select_metrics :: "dataframe \<Rightarrow> error + grouped" where
  "select_metrics df =
     (case groupby df ''Semana'' of Inl e \<Rightarrow> Inl e | Inr g \<Rightarrow> getitem g METRICS)"

definition weekly_table :: "dataframe \<Rightarrow> error + indexed" where
  "weekly_table df =
     (case select_metrics df of
        Inl e \<Rightarrow> Inl e
      | Inr g \<Rightarrow> (case gb_sum g of Inl e \<Rightarrow> Inl e | Inr w \<Rightarrow> sort_index w))"

subsection \<open>The figure\<close>

text \<open>
  \<^verbatim>\<open>plt.subplots(2, 2, figsize=(12, 8), sharex=True)\<close> gives four axes. The loop
  draws on each of them one line, the sums of one metric against the index of
  \<^verbatim>\<open>weekly\<close>, with round markers, and sets the title and the two labels.
  \<open>ax.plot\<close> takes the kind of each coordinate from its first value: after a number
  every value must be a number (\<open>ValueError\<close> on text that is no number), after a
  string every value must be a string (\<open>TypeError\<close>). So a column of sums that mixes
  numbers and text cannot be drawn, and the loop ends there with the exception.
  What matplotlib makes of the figure when it encodes it is not modelled: a figure is
  the data it was given.
\<close>

record axes =
  title :: string
  xlabel :: string
  ylabel :: string
  line_x :: "cell list"
  line_y :: "cell list"
  marker :: string

record figure =
  figsize :: "nat \<times> nat"
  sharex :: bool
  subplots :: "axes list"
  tight :: bool

definition index_of :: "indexed \<Rightarrow> cell list" where
  "index_of w = map fst w"

definition column_of :: "indexed \<Rightarrow> string \<Rightarrow> cell list" where
  "column_of w c = map (\<lambda>e. cell_at (map_of (snd e)) c) w"

definition check_units :: "cell list \<Rightarrow> error option" where
  "check_units vs =
     (case filter (\<lambda>v. v \<noteq> NA) vs of
        [] \<Rightarrow> None
      | v # rest \<Rightarrow>
          if is_num v then (if list_ex is_str rest then Some ValueError else None)
          else (if list_ex is_num rest then Some TypeError else None))"

definition plot :: "cell list \<Rightarrow> cell list \<Rightarrow> error + cell list \<times> cell list" where
  "plot xs ys =
     (case check_units xs of
        Some e \<Rightarrow> Inl e
      | None \<Rightarrow> (case check_units ys of Some e \<Rightarrow> Inl e | None \<Rightarrow> Inr (xs, ys)))"

definition plot_metric :: "indexed \<Rightarrow> string \<times> string \<Rightarrow> error + axes" where
  "plot_metric w mt =
     (case plot (index_of w) (column_of w (fst mt)) of
        Inl e \<Rightarrow> Inl e
      | Inr (xs, ys) \<Rightarrow>
          Inr \<lparr>title = snd mt, xlabel = ''Semana'', ylabel = ''Quantidade'',
               line_x = xs, line_y = ys, marker = ''o''\<rparr>)"

fun plot_all :: "indexed \<Rightarrow> (string \<times> string) list \<Rightarrow> error + axes list" where
  "plot_all w [] = Inr []"
| "plot_all w (mt # mts) =
     (case plot_metric w mt of
        Inl e \<Rightarrow> Inl e
      | Inr a \<Rightarrow> (case plot_all w mts of Inl e \<Rightarrow> Inl e | Inr as \<Rightarrow> Inr (a # as)))"

definition draw :: "indexed \<Rightarrow> error + figure" where
  "draw w =
     (case plot_all w (zip METRICS TITLES) of
        Inl e \<Rightarrow> Inl e
      | Inr as \<Rightarrow> Inr \<lparr>figsize = (12, 8), sharex = True, subplots = as, tight = True\<rparr>)"

subsection \<open>Paths\<close>

text \<open>
  A \<open>Path\<close> is the list of its components. \<open>name\<close> is the last component,
  \<open>parent\<close> drops it, and \<open>suffix\<close> is the part of the name from its last dot on,
  provided that dot is neither the first nor the last character of the name.
  \<open>lower\<close> is \<open>str.lower\<close> on ASCII letters and leaves every other character as
  it is; no character outside ASCII lower-cases to a character of \<open>.csv\<close>, so
  this does not change whether the result is \<open>.csv\<close>.
\<close>

type_synonym path = "string list"

definition name :: "path \<Rightarrow> string" where
  "name p = (if p = [] then [] else last p)"

definition parent :: "path \<Rightarrow> path" where
  "parent p = butlast p"

primrec rfind :: "char \<Rightarrow> string \<Rightarrow> nat option" where
  "rfind c [] = None"
| "rfind c (x # xs) =
     (case rfind c xs of
        Some i \<Rightarrow> Some (Suc i)
      | None \<Rightarrow> if x = c then Some 0 else None)"

definition suffix :: "path \<Rightarrow> string" where
  "suffix p =
     (case rfind (CHR ''.'') (name p) of
        None \<Rightarrow> []
      | Some i \<Rightarrow> if 0 < i \<and> i < length (name p) - 1 then drop i (name p) else [])"

definition lower_char :: "char \<Rightarrow> char" where
  "lower_char c =
     (case map_of (zip ''ABCDEFGHIJKLMNOPQRSTUVWXYZ'' ''abcdefghijklmnopqrstuvwxyz'') c of
        None \<Rightarrow> c
      | Some l \<Rightarrow> l)"

definition lower :: "string \<Rightarrow> string" where
  "lower s = map lower_char s"

subsection \<open>The file system\<close>

text \<open>
  The file system maps paths to directories and files; the empty path is the
  directory the paths start from and always exists. The components of a path are plain
  names: links, \<open>.\<close> and \<open>..\<close> are not modelled, nor are permissions and quotas.
  \<open>walk\<close> resolves the directory part of a path as the kernel does, component by
  component: a missing component is \<open>ENOENT\<close>, a file on the way is \<open>ENOTDIR\<close>.
  A call that fails leaves the file system as it was.
\<close>

datatype 'c node = Dir | File 'c

type_synonym 'c fs = "path \<rightharpoonup> 'c node"

definition lookup :: "'c fs \<Rightarrow> path \<Rightarrow> 'c node option" where
  "lookup fs p = (if p = [] then Some Dir else fs p)"

definition is_dir :: "'c fs \<Rightarrow> path \<Rightarrow> bool" where
  "is_dir fs p = (lookup fs p = Some Dir)"

fun walk :: "'c fs \<Rightarrow> path \<Rightarrow> string list \<Rightarrow> error option" where
  "walk fs pre [] = None"
| "walk fs pre (c # cs) =
     (case lookup fs pre of
        None \<Rightarrow> Some FileNotFoundError
      | Some (File x) \<Rightarrow> Some NotADirectoryError
      | Some Dir \<Rightarrow> walk fs (pre @ [c]) cs)"

definition os_mkdir :: "'c fs \<Rightarrow> path \<Rightarrow> error + 'c fs" where
  "os_mkdir fs p =
     (case walk fs [] p of
        Some e \<Rightarrow> Inl e
      | None \<Rightarrow> if lookup fs p \<noteq> None then Inl FileExistsError else Inr (fs(p \<mapsto> Dir)))"

text \<open>
  \<open>Path.mkdir\<close> of pathlib. With \<open>exist_ok\<close> an error other than a missing parent is
  dropped when the path is a directory. With \<open>parents\<close> a missing parent is created
  first, by the same call on the parent, and the directory itself is then made by a
  call without \<open>parents\<close>.
\<close>

definition mkdir_exist_ok :: "'c fs \<Rightarrow> path \<Rightarrow> error + 'c fs" where
  "mkdir_exist_ok fs p =
     (case os_mkdir fs p of
        Inr fs' \<Rightarrow> Inr fs'
      | Inl e \<Rightarrow> if e \<noteq> FileNotFoundError \<and> is_dir fs p then Inr fs else Inl e)"

function mkdir_parents :: "'c fs \<Rightarrow> path \<Rightarrow> (error + unit) \<times> 'c fs" where
  "mkdir_parents fs p =
     (case os_mkdir fs p of
        Inr fs' \<Rightarrow> (Inr (), fs')
      | Inl e \<Rightarrow>
          if e = FileNotFoundError then
            (if parent p = p then (Inl e, fs)
             else (case mkdir_parents fs (parent p) of
                     (Inl e1, fs1) \<Rightarrow> (Inl e1, fs1)
                   | (Inr u, fs1) \<Rightarrow>
                       (case mkdir_exist_ok fs1 p of
                          Inl e2 \<Rightarrow> (Inl e2, fs1)
                        | Inr fs2 \<Rightarrow> (Inr (), fs2))))
          else if is_dir fs p then (Inr (), fs)
          else (Inl e, fs))"
  by pat_completeness auto
termination
proof (relation "measure (\<lambda>(fs, p). length p)")
  fix fs :: "'c fs" and p :: path and e :: error
  assume "parent p \<noteq> p"
  then have "p \<noteq> []"
    by (auto simp: parent_def)
  then show "((fs, parent p), (fs, p)) \<in> measure (\<lambda>(fs, p). length p)"
    by (simp add: parent_def)
qed simp

declare mkdir_parents.simps [simp del]

text \<open>Opening a file for writing creates or truncates it; a directory cannot be opened.\<close>

definition write_file :: "'c fs \<Rightarrow> path \<Rightarrow> 'c \<Rightarrow> error + 'c fs" where
  "write_file fs p c =
     (case walk fs [] p of
        Some e \<Rightarrow> Inl e
      | None \<Rightarrow>
          (case lookup fs p of
             Some Dir \<Rightarrow> Inl IsADirectoryError
           | _ \<Rightarrow> Inr (fs(p \<mapsto> File c))))"

definition read_file :: "'c fs \<Rightarrow> path \<Rightarrow> error + 'c" where
  "read_file fs p =
     (case walk fs [] p of
        Some e \<Rightarrow> Inl e
      | None \<Rightarrow>
          (case lookup fs p of
             None \<Rightarrow> Inl FileNotFoundError
           | Some Dir \<Rightarrow> Inl IsADirectoryError
           | Some (File c) \<Rightarrow> Inr c))"

subsection \<open>\<^verbatim>\<open>plot_projections\<close>\<close>

text \<open>
  \<open>savefig\<close> lets matplotlib choose the format from the file name and encode the
  figure. That encoder is a parameter: it gives the file that is written and its
  content, or raises (a format it does not know).
\<close>

type_synonym 'c renderer = "figure \<Rightarrow> path \<Rightarrow> error + path \<times> 'c"

definition savefig :: "'c renderer \<Rightarrow> figure \<Rightarrow> path \<Rightarrow> 'c fs \<Rightarrow> error + 'c fs" where
  "savefig render fig p fs =
     (case render fig p of
        Inl e \<Rightarrow> Inl e
      | Inr (q, img) \<Rightarrow> write_file fs q img)"

definition plot_projections ::
  "'c renderer \<Rightarrow> dataframe \<Rightarrow> path \<Rightarrow> 'c fs \<Rightarrow> (error + unit) \<times> 'c fs" where
  "plot_projections render df output fs =
     (case weekly_table df of
        Inl e \<Rightarrow> (Inl e, fs)
      | Inr weekly \<Rightarrow>
          (case draw weekly of
             Inl e \<Rightarrow> (Inl e, fs)
           | Inr fig \<Rightarrow>
               (case mkdir_parents fs (parent output) of
                  (Inl e, fs1) \<Rightarrow> (Inl e, fs1)
                | (Inr u, fs1) \<Rightarrow>
                    (case savefig render fig output fs1 of
                       Inl e \<Rightarrow> (Inl e, fs1)
                     | Inr fs2 \<Rightarrow> (Inr (), fs2)))))"

subsection \<open>\<^verbatim>\<open>load_dataset\<close> and \<^verbatim>\<open>main\<close>\<close>

text \<open>
  \<open>load_dataset\<close> hands the path to one of two readers of pandas, which are its
  parameters here. A reader opens the file and parses its content; the parsers are
  fields of \<open>pandas_io\<close>.
\<close>

definition load_dataset :: "(path \<Rightarrow> 'r) \<Rightarrow> (path \<Rightarrow> 'r) \<Rightarrow> path \<Rightarrow> 'r" where
  "load_dataset read_csv read_excel p =
     (if lower (suffix p) = ''.csv'' then read_csv p else read_excel p)"

record 'c pandas_io =
  parse_csv :: "'c \<Rightarrow> error + dataframe"
  parse_excel :: "'c \<Rightarrow> error + dataframe"

definition read_csv :: "'c pandas_io \<Rightarrow> 'c fs \<Rightarrow> path \<Rightarrow> error + dataframe" where
  "read_csv io fs p = (case read_file fs p of Inl e \<Rightarrow> Inl e | Inr c \<Rightarrow> parse_csv io c)"

definition read_excel :: "'c pandas_io \<Rightarrow> 'c fs \<Rightarrow> path \<Rightarrow> error + dataframe" where
  "read_excel io fs p = (case read_file fs p of Inl e \<Rightarrow> Inl e | Inr c \<Rightarrow> parse_excel io c)"

text \<open>
  \<open>main\<close> takes the two paths that \<open>argparse\<close> read from the command line. An
  exception ends the run; on success the path of the chart is printed, which is the
  value returned here.
\<close>

definition main ::
  "'c pandas_io \<Rightarrow> 'c renderer \<Rightarrow> path \<Rightarrow> path \<Rightarrow> 'c fs \<Rightarrow> (error + path) \<times> 'c fs" where
  "main io render input_file output fs =
     (case load_dataset (read_csv io fs) (read_excel io fs) input_file of
        Inl e \<Rightarrow> (Inl e, fs)
      | Inr df \<Rightarrow>
          (case plot_projections render df output fs of
             (Inl e, fs1) \<Rightarrow> (Inl e, fs1)
           | (Inr u, fs1) \<Rightarrow> (Inr output, fs1)))"

subsection \<open>Notions used in the statements\<close>

text \<open>
  The week of a row; a table that has the week column and the four metric columns;
  a table whose weeks and metrics are all integers, and one where they are all
  integers of the signed 64-bit range. \<open>week_total\<close> follows the words of the
  specification: the arithmetic sum of a metric over the rows of a week.
  \<open>week_entry\<close> is the row of one week in the weekly table, each total in the dtype
  of its column, and \<open>week_numbers\<close> the set of the week numbers of a table.
\<close>

definition week_of :: "row \<Rightarrow> cell" where
  "week_of r = cell_at r ''Semana''"

definition has_columns :: "dataframe \<Rightarrow> bool" where
  "has_columns df = (''Semana'' \<in> set (columns df) \<and> set METRICS \<subseteq> set (columns df))"

definition numeric :: "dataframe \<Rightarrow> bool" where
  "numeric df =
     list_all (\<lambda>r. is_num (week_of r) \<and> list_all (\<lambda>m. is_num (cell_at r m)) METRICS) (rows df)"

definition week_total :: "dataframe \<Rightarrow> cell \<Rightarrow> string \<Rightarrow> int" where
  "week_total df w m =
     sum_list (map (\<lambda>r. num_of (cell_at r m)) (filter (\<lambda>r. week_of r = w) (rows df)))"


definition week_entry :: "dataframe \<Rightarrow> cell \<Rightarrow> cell \<times> (string \<times> cell) list" where
  "week_entry df w =
     (w, map (\<lambda>m. (m, Num (overflow (dtype_of df m) (week_total df w m)))) METRICS)"

definition week_numbers :: "dataframe \<Rightarrow> int set" where
  "week_numbers df = num_of ` week_of ` set (rows df)"

text \<open>
  Two rows agree when they carry the same week and the same four metrics. The
  ancestors of a path are its prefixes, from the starting directory to the path
  itself; the way to a directory is clear when none of them is a regular file, and
  \<open>with_dirs\<close> is the file system with those of them that were missing added as
  directories.
\<close>

definition agree :: "row \<Rightarrow> row \<Rightarrow> bool" where
  "agree r1 r2 = (\<forall>c \<in> insert ''Semana'' (set METRICS). cell_at r1 c = cell_at r2 c)"

definition ancestors :: "path \<Rightarrow> path list" where
  "ancestors p = map (\<lambda>n. take n p) [0..<Suc (length p)]"

definition is_file :: "'c fs \<Rightarrow> path \<Rightarrow> bool" where
  "is_file fs p = (case lookup fs p of Some (File c) \<Rightarrow> True | _ \<Rightarrow> False)"

definition clear_way :: "'c fs \<Rightarrow> path \<Rightarrow> bool" where
  "clear_way fs p = list_all (\<lambda>q. \<not> is_file fs q) (ancestors p)"

definition with_dirs :: "'c fs \<Rightarrow> path \<Rightarrow> 'c fs" where
  "with_dirs fs p = (\<lambda>q. if q \<in> set (ancestors p) \<and> lookup fs q = None then Some Dir else fs q)"

subsection \<open>Example inputs\<close>

text \<open>
  The two rows of the end-to-end example of the specification; a table of two weeks,
  out of order and without the branch and product columns; a table that has no
  target column; a table whose sales are text; an encoder that stores the figure
  itself under the name it is given; an empty disk and parsers that refuse everything;
  the example of the specification with other branches and products; the weekly table
  of the two weeks and its chart, the default path of the chart, and a disk that
  already holds an older chart there; a table of one week whose sales add up to
  \<open>2^63\<close>.
\<close>

definition mk_row :: "int \<Rightarrow> string \<Rightarrow> cell \<Rightarrow> cell \<Rightarrow> cell \<Rightarrow> cell \<Rightarrow> cell \<Rightarrow> row" where
  "mk_row b s w v a r e =
     [''FILIAL'' \<mapsto> Num b, ''SKU'' \<mapsto> Str s, ''Semana'' \<mapsto> w,
      ''Venda'' \<mapsto> v, ''Alvo'' \<mapsto> a, ''Reposicao'' \<mapsto> r, ''Estoque'' \<mapsto> e]"

definition spec_example :: dataframe where
  "spec_example =
     \<lparr>columns = [''FILIAL'', ''SKU'', ''Semana'', ''Venda'', ''Alvo'', ''Reposicao'', ''Estoque''],
      rows = [mk_row 1 ''A'' (Num 1) (Num 10) (Num 12) (Num 2) (Num 50),
              mk_row 2 ''B'' (Num 1) (Num 5) (Num 6) (Num 1) (Num 20)]\<rparr>"

definition no_target :: dataframe where
  "no_target =
     \<lparr>columns = [''Semana'', ''Venda'', ''Reposicao'', ''Estoque''],
      rows = [[''Semana'' \<mapsto> Num 1, ''Venda'' \<mapsto> Num 10, ''Reposicao'' \<mapsto> Num 2,
               ''Estoque'' \<mapsto> Num 50]]\<rparr>"

definition text_sales :: dataframe where
  "text_sales =
     \<lparr>columns = [''Semana'', ''Venda'', ''Alvo'', ''Reposicao'', ''Estoque''],
      rows = [[''Semana'' \<mapsto> Num 1, ''Venda'' \<mapsto> Str ''dez'', ''Alvo'' \<mapsto> Num 12,
               ''Reposicao'' \<mapsto> Num 2, ''Estoque'' \<mapsto> Num 50]]\<rparr>"

definition keep_figure :: "figure renderer" where
  "keep_figure fig p = Inr (p, fig)"

definition two_weeks :: dataframe where
  "two_weeks =
     \<lparr>columns = [''Semana'', ''Venda'', ''Alvo'', ''Reposicao'', ''Estoque''],
      rows = [[''Semana'' \<mapsto> Num 2, ''Venda'' \<mapsto> Num 7, ''Alvo'' \<mapsto> Num 9,
               ''Reposicao'' \<mapsto> Num 0, ''Estoque'' \<mapsto> Num 30],
              [''Semana'' \<mapsto> Num 1, ''Venda'' \<mapsto> Num 10, ''Alvo'' \<mapsto> Num 12,
               ''Reposicao'' \<mapsto> Num 2, ''Estoque'' \<mapsto> Num 50],
              [''Semana'' \<mapsto> Num 2, ''Venda'' \<mapsto> Num 4, ''Alvo'' \<mapsto> Num 3,
               ''Reposicao'' \<mapsto> Num 1, ''Estoque'' \<mapsto> Num 25]]\<rparr>"

definition empty_disk :: "figure fs" where
  "empty_disk = Map.empty"

definition no_parsers :: "figure pandas_io" where
  "no_parsers =
     \<lparr>parse_csv = (\<lambda>c. Inl (OtherError ''csv'')),
      parse_excel = (\<lambda>c. Inl (OtherError ''excel''))\<rparr>"

definition relabelled_example :: dataframe where
  "relabelled_example =
     \<lparr>columns = [''FILIAL'', ''SKU'', ''Semana'', ''Venda'', ''Alvo'', ''Reposicao'', ''Estoque''],
      rows = [mk_row 7 ''Z'' (Num 1) (Num 10) (Num 12) (Num 2) (Num 50),
              mk_row 8 ''Y'' (Num 1) (Num 5) (Num 6) (Num 1) (Num 20)]\<rparr>"


definition chart_path :: path where
  "chart_path = [''outputs'', ''projecoes.png'']"







section \<open>Properties\<close>

subsection \<open>Missing columns\<close>

lemma getitem_missing:
  assumes "\<not> set cs \<subseteq> set (columns (obj g))"
  shows "getitem g cs = Inl (KeyError (filter (\<lambda>c. c \<notin> set (columns (obj g))) cs))"
proof -
  from assms have "filter (\<lambda>c. c \<notin> set (columns (obj g))) cs \<noteq> []"
    by (auto simp: filter_empty_conv)
  then show ?thesis
    by (auto simp: getitem_def split: list.splits)
qed

lemma select_metrics_missing:
  assumes "''Semana'' \<notin> set (columns df) \<or> \<not> set METRICS \<subseteq> set (columns df)"
  shows "select_metrics df =
    Inl (KeyError (if ''Semana'' \<notin> set (columns df) then [''Semana'']
                   else filter (\<lambda>c. c \<notin> set (columns df)) METRICS))"
proof (cases "''Semana'' \<in> set (columns df)")
  case False
  then show ?thesis by (simp add: select_metrics_def groupby_def)
next
  case True
  let ?g = "\<lparr>obj = df, key = ''Semana'', sel = filter (\<lambda>c. c \<noteq> ''Semana'') (columns df)\<rparr>"
  from True assms have "\<not> set METRICS \<subseteq> set (columns df)" by simp
  then have "getitem ?g METRICS = Inl (KeyError (filter (\<lambda>c. c \<notin> set (columns df)) METRICS))"
    using getitem_missing[of METRICS ?g] by simp
  with True show ?thesis by (simp add: select_metrics_def groupby_def)
qed

text \<open>
  C3. A table without the week column, or without one of the four metric columns,
  makes \<open>plot_projections\<close> raise \<open>KeyError\<close> for names that are among the five and
  not in the header, and the file system is left exactly as it was.
\<close>

theorem missing_column_error:
  assumes "''Semana'' \<notin> set (columns df) \<or> \<not> set METRICS \<subseteq> set (columns df)"
  shows "\<exists>names. names \<noteq> [] \<and> set names \<inter> set (columns df) = {} \<and>
           set names \<subseteq> insert ''Semana'' (set METRICS) \<and>
           plot_projections render df output fs = (Inl (KeyError names), fs)"
proof -
  let ?names = "if ''Semana'' \<notin> set (columns df) then [''Semana'']
                   else filter (\<lambda>c. c \<notin> set (columns df)) METRICS"
  have sel: "select_metrics df = Inl (KeyError ?names)"
    using assms by (rule select_metrics_missing)
  have "plot_projections render df output fs = (Inl (KeyError ?names), fs)"
    by (simp add: plot_projections_def weekly_table_def sel)
  moreover have "?names \<noteq> []"
    using assms by (auto simp: filter_empty_conv)
  moreover have "set ?names \<inter> set (columns df) = {}" by auto
  moreover have "set ?names \<subseteq> insert ''Semana'' (set METRICS)" by auto
  ultimately show ?thesis by blast
qed

theorem missing_column_error_witness:
  "\<exists>names. names \<noteq> [] \<and> set names \<inter> set (columns no_target) = {} \<and>
           set names \<subseteq> insert ''Semana'' (set METRICS) \<and>
           plot_projections keep_figure no_target [''outputs'', ''projecoes.png''] Map.empty =
             (Inl (KeyError names), Map.empty)"
proof -
  have "''Semana'' \<notin> set (columns no_target) \<or> \<not> set METRICS \<subseteq> set (columns no_target)"
    by (simp add: no_target_def METRICS_def)
  then show ?thesis by (rule missing_column_error)
qed

text \<open>
  C4, as amended. When one of the four metric columns is absent, the selection
  \<^verbatim>\<open>df.groupby("Semana")[METRICS]\<close> raises \<open>KeyError\<close>, so the operation fails before
  the aggregation step. (Nothing inspects the values of the columns before the
  aggregation: see the counterexample below.)
\<close>

theorem absent_metric_fails_before_sum:
  assumes "\<not> set METRICS \<subseteq> set (columns df)"
  shows "\<exists>names. select_metrics df = Inl (KeyError names) \<and>
           weekly_table df = Inl (KeyError names)"
  using select_metrics_missing[of df] assms by (simp add: weekly_table_def)

theorem absent_metric_fails_before_sum_witness:
  "\<not> set METRICS \<subseteq> set (columns no_target) \<and>
   (\<exists>names. select_metrics no_target = Inl (KeyError names) \<and>
           weekly_table no_target = Inl (KeyError names))"
proof -
  have h: "\<not> set METRICS \<subseteq> set (columns no_target)"
    by (simp add: no_target_def METRICS_def)
  show ?thesis using h absent_metric_fails_before_sum[OF h] by simp
qed

text \<open>
  C4, as stated, fails: a table whose sales column holds text has all five columns, so
  the selection before the aggregation succeeds; the aggregation itself then
  concatenates the text and succeeds as well.
\<close>

theorem text_metric_not_rejected:
  "is_str (cell_at (hd (rows text_sales)) ''Venda'') \<and>
   ''Venda'' \<in> set METRICS \<and>
   select_metrics text_sales = Inr \<lparr>obj = text_sales, key = ''Semana'', sel = METRICS\<rparr> \<and>
   weekly_table text_sales =
     Inr [(Num 1, [(''Venda'', Str ''dez''), (''Alvo'', Num 12), (''Reposicao'', Num 2),
                   (''Estoque'', Num 50)])]"
  by (simp add: text_sales_def cell_at_def METRICS_def select_metrics_def groupby_def
      getitem_def weekly_table_def gb_sum_def group_keys_def group_rows_def sort_index_def
      dtype_of_def column_dtype_def in_int64_def in_uint64_def)

subsection \<open>The loader\<close>

lemma lower_char_dot: "lower_char c = CHR ''.'' \<longleftrightarrow> c = CHR ''.''"
  by (auto simp: lower_char_def split: if_splits)

lemma lower_char_not_dot:
  "lower_char c \<in> {CHR ''c'', CHR ''s'', CHR ''v''} \<Longrightarrow> c \<noteq> CHR ''.''"
  by (auto simp: lower_char_def)

lemma lower_csv_shape:
  assumes "lower e = ''.csv''"
  shows "\<exists>a b c. e = [CHR ''.'', a, b, c] \<and> a \<noteq> CHR ''.'' \<and> b \<noteq> CHR ''.'' \<and> c \<noteq> CHR ''.''"
proof -
  from assms obtain d a b c where e: "e = [d, a, b, c]"
    and l: "lower_char d = CHR ''.''" "lower_char a = CHR ''c''"
      "lower_char b = CHR ''s''" "lower_char c = CHR ''v''"
    by (auto simp: lower_def map_eq_Cons_conv)
  from l(1) have "d = CHR ''.''" by (simp add: lower_char_dot)
  moreover have "a \<noteq> CHR ''.''" "b \<noteq> CHR ''.''" "c \<noteq> CHR ''.''"
    using l lower_char_not_dot by auto
  ultimately show ?thesis using e by blast
qed

lemma rfind_append:
  "rfind c ys = None \<Longrightarrow> rfind c (xs @ c # ys) = Some (length xs)"
  by (induction xs) auto

lemma suffix_of_name:
  assumes "p \<noteq> []" "last p = stem @ e" "stem \<noteq> []" "lower e = ''.csv''"
  shows "suffix p = e"
proof -
  from lower_csv_shape[OF assms(4)] obtain a b c where
    e: "e = [CHR ''.'', a, b, c]" and nd: "a \<noteq> CHR ''.''" "b \<noteq> CHR ''.''" "c \<noteq> CHR ''.''"
    by blast
  have "rfind (CHR ''.'') [a, b, c] = None" using nd by simp
  then have "rfind (CHR ''.'') (stem @ CHR ''.'' # [a, b, c]) = Some (length stem)"
    by (rule rfind_append)
  then show ?thesis using assms(1-3) e
    by (simp add: suffix_def name_def)
qed

text \<open>
  C5. \<open>load_dataset\<close> calls the CSV reader exactly when the suffix of the path is
  \<open>.csv\<close> (compared in lower case, as the source does), and the spreadsheet reader for
  every other suffix; a \<open>.txt\<close> file, in any directory, goes to the spreadsheet
  reader and is not rejected.
\<close>

theorem load_dataset_dispatch:
  "(lower (suffix p) = ''.csv'' \<longrightarrow> load_dataset rc re p = rc p) \<and>
   (lower (suffix p) \<noteq> ''.csv'' \<longrightarrow> load_dataset rc re p = re p) \<and>
   load_dataset rc re (dir @ [''dados.txt'']) = re (dir @ [''dados.txt''])"
  by (simp add: load_dataset_def suffix_def name_def lower_def lower_char_def)

theorem load_dataset_dispatch_witness:
  "lower (suffix [''dados.csv'']) = ''.csv'' \<and>
   load_dataset (\<lambda>p. ''read_csv'') (\<lambda>p. ''read_excel'') [''dados.csv''] = ''read_csv'' \<and>
   lower (suffix [''dados.xlsx'']) \<noteq> ''.csv'' \<and>
   load_dataset (\<lambda>p. ''read_csv'') (\<lambda>p. ''read_excel'') [''dados.xlsx''] = ''read_excel''"
proof -
  have a: "lower (suffix [''dados.csv'']) = ''.csv''"
    by (simp add: suffix_def name_def lower_def lower_char_def)
  have b: "lower (suffix [''dados.xlsx'']) \<noteq> ''.csv''"
    by (simp add: suffix_def name_def lower_def lower_char_def)
  from a b
    load_dataset_dispatch[of "[''dados.csv'']" "\<lambda>p. ''read_csv''" "\<lambda>p. ''read_excel''"]
    load_dataset_dispatch[of "[''dados.xlsx'']" "\<lambda>p. ''read_csv''" "\<lambda>p. ''read_excel''"]
  show ?thesis by blast
qed

text \<open>
  C9. The comparison ignores the case of the letters: a path whose suffix is \<open>.csv\<close>
  once lower-cased goes to the CSV reader, not to the spreadsheet reader. In terms of
  the file name: when the name is a non-empty stem followed by \<open>.csv\<close> in any mix
  of upper and lower case, that ending is the suffix and the file goes to the CSV
  reader.
\<close>

theorem csv_suffix_any_case:
  "(lower (suffix p) = ''.csv'' \<longrightarrow> load_dataset rc re p = rc p) \<and>
   (p \<noteq> [] \<and> last p = stem @ ext \<and> stem \<noteq> [] \<and> lower ext = ''.csv'' \<longrightarrow>
      suffix p = ext \<and> load_dataset rc re p = rc p)"
proof (intro conjI impI)
  assume "lower (suffix p) = ''.csv''"
  then show "load_dataset rc re p = rc p"
    by (simp add: load_dataset_def)
next
  assume a: "p \<noteq> [] \<and> last p = stem @ ext \<and> stem \<noteq> [] \<and> lower ext = ''.csv''"
  then have "p \<noteq> []" "last p = stem @ ext" "stem \<noteq> []" "lower ext = ''.csv''"
    by blast+
  then show "suffix p = ext"
    by (rule suffix_of_name)
  with a show "load_dataset rc re p = rc p"
    by (simp add: load_dataset_def)
qed

theorem csv_suffix_any_case_witness:
  "suffix [''dados'', ''VENDAS.CSV''] = ''.CSV'' \<and>
   load_dataset (\<lambda>p. ''read_csv'') (\<lambda>p. ''read_excel'') [''dados'', ''VENDAS.CSV''] =
     ''read_csv'' \<and>
   suffix [''vendas.Csv''] = ''.Csv'' \<and>
   load_dataset (\<lambda>p. ''read_csv'') (\<lambda>p. ''read_excel'') [''vendas.Csv''] = ''read_csv''"
proof -
  have l1: "lower ''.CSV'' = ''.csv''" and l2: "lower ''.Csv'' = ''.csv''"
    by (simp_all add: lower_def lower_char_def)
  have "suffix [''dados'', ''VENDAS.CSV''] = ''.CSV'' \<and>
    load_dataset (\<lambda>p. ''read_csv'') (\<lambda>p. ''read_excel'') [''dados'', ''VENDAS.CSV''] =
      ''read_csv''"
    using csv_suffix_any_case[of "[''dados'', ''VENDAS.CSV'']" "\<lambda>p. ''read_csv''"
        "\<lambda>p. ''read_excel''" "''VENDAS''" "''.CSV''"] l1
    by simp
  moreover have "suffix [''vendas.Csv''] = ''.Csv'' \<and>
    load_dataset (\<lambda>p. ''read_csv'') (\<lambda>p. ''read_excel'') [''vendas.Csv''] = ''read_csv''"
    using csv_suffix_any_case[of "[''vendas.Csv'']" "\<lambda>p. ''read_csv''"
        "\<lambda>p. ''read_excel''" "''vendas''" "''.Csv''"] l2
    by simp
  ultimately show ?thesis by simp
qed

lemma read_file_no_file:
  assumes "\<forall>c. lookup fs p \<noteq> Some (File c)"
  shows "\<exists>e \<in> {FileNotFoundError, NotADirectoryError, IsADirectoryError}. read_file fs p = Inl e"
proof (cases "walk fs [] p")
  case None
  then show ?thesis using assms
    by (auto simp: read_file_def split: option.splits node.splits)
next
  case (Some e)
  have "\<And>pre. walk fs pre p = Some e \<Longrightarrow> e \<in> {FileNotFoundError, NotADirectoryError}"
    by (induction p) (auto split: option.splits node.splits)
  with Some show ?thesis by (auto simp: read_file_def)
qed

text \<open>
  C6. When the input path names no file, \<open>main\<close> ends with the error of the reader
  that could not open it (the path or one of its directories is missing, or the path
  is a directory). \<open>plot_projections\<close> is not reached and the file system is left
  exactly as it was, whatever the parsers and the encoder are.
\<close>

theorem missing_input_loading_error:
  assumes "\<forall>c. lookup fs input_file \<noteq> Some (File c)"
  shows "\<exists>e \<in> {FileNotFoundError, NotADirectoryError, IsADirectoryError}.
           main io render input_file output fs = (Inl e, fs)"
proof -
  from read_file_no_file[OF assms] obtain e
    where e: "e \<in> {FileNotFoundError, NotADirectoryError, IsADirectoryError}"
      and r: "read_file fs input_file = Inl e"
    by blast
  have "load_dataset (read_csv io fs) (read_excel io fs) input_file = Inl e"
    by (simp add: load_dataset_def read_csv_def read_excel_def r)
  then have "main io render input_file output fs = (Inl e, fs)"
    by (simp add: main_def)
  with e show ?thesis by blast
qed

theorem missing_input_loading_error_witness:
  "(\<forall>c. lookup empty_disk [''dados.csv''] \<noteq> Some (File c)) \<and>
   main no_parsers keep_figure [''dados.csv''] [''outputs'', ''projecoes.png''] empty_disk =
     (Inl FileNotFoundError, empty_disk)"
proof -
  have h: "\<forall>c. lookup empty_disk [''dados.csv''] \<noteq> Some (File c)"
    by (simp add: lookup_def empty_disk_def)
  from missing_input_loading_error[OF h, of no_parsers keep_figure "[''outputs'', ''projecoes.png'']"]
  obtain e where "main no_parsers keep_figure [''dados.csv''] [''outputs'', ''projecoes.png''] empty_disk = (Inl e, empty_disk)"
    by blast
  moreover have "fst (main no_parsers keep_figure [''dados.csv''] [''outputs'', ''projecoes.png''] empty_disk) = Inl FileNotFoundError"
    by (simp add: main_def load_dataset_def read_csv_def read_file_def lookup_def empty_disk_def
        suffix_def name_def lower_def lower_char_def)
  ultimately show ?thesis using h by simp
qed

subsection \<open>The weekly table of a numeric table\<close>

lemma is_num_conv: "is_num v \<longleftrightarrow> v = Num (num_of v)"
  by (cases v) auto

lemma select_metrics_ok:
  assumes "has_columns df"
  shows "select_metrics df = Inr \<lparr>obj = df, key = ''Semana'', sel = METRICS\<rparr>"
proof -
  have "filter (\<lambda>c. c \<notin> set (columns df)) METRICS = []"
    using assms by (auto simp: has_columns_def filter_empty_conv)
  then show ?thesis
    using assms by (simp add: has_columns_def select_metrics_def groupby_def getitem_def)
qed

lemma wrap64_id: "in_int64 n \<Longrightarrow> wrap64 n = n"
  by (simp add: in_int64_def wrap64_def)

lemma overflow_add: "overflow dt (overflow dt a + b) = overflow dt (a + b)"
proof (cases dt)
  case Int64
  have "wrap64 a + b + 9223372036854775808 =
        (a + 9223372036854775808) mod 18446744073709551616 + b"
    by (simp add: wrap64_def)
  then have "(wrap64 a + b + 9223372036854775808) mod 18446744073709551616 =
        ((a + 9223372036854775808) mod 18446744073709551616 + b) mod 18446744073709551616"
    by (rule arg_cong)
  also have "\<dots> = (a + 9223372036854775808 + b) mod 18446744073709551616"
    by (rule mod_add_left_eq)
  also have "a + 9223372036854775808 + b = a + b + 9223372036854775808"
    by simp
  finally have "wrap64 (wrap64 a + b) = wrap64 (a + b)"
    by (simp only: wrap64_def)
  then show ?thesis
    using Int64 by simp
next
  case UInt64
  then show ?thesis by (simp add: mod_add_left_eq)
next
  case Text
  then show ?thesis by simp
next
  case Object
  then show ?thesis by simp
qed

lemma overflow_idem: "overflow dt (overflow dt a) = overflow dt a"
  using overflow_add[of dt a 0] by simp

lemma overflow_zero: "overflow dt 0 = 0"
  by (cases dt) (simp_all add: wrap64_def)

lemma sum_from_num:
  assumes "list_all is_num vs" and "overflow dt a = a"
  shows "sum_from dt (Num a) vs = Inr (Num (overflow dt (a + sum_list (map num_of vs))))"
  using assms
proof (induction vs arbitrary: a)
  case Nil
  then show ?case by simp
next
  case (Cons v vs)
  then obtain b where v: "v = Num b" by (cases v) auto
  have "sum_from dt (Num (overflow dt (a + b))) vs =
      Inr (Num (overflow dt (overflow dt (a + b) + sum_list (map num_of vs))))"
    using Cons.prems(1) by (intro Cons.IH) (simp_all add: overflow_idem)
  then show ?case
    using v by (simp add: overflow_add add.assoc)
qed

lemma sum_cells_num:
  assumes "list_all is_num vs" and "dt \<noteq> Text"
    and "\<forall>v\<in>set vs. overflow dt (num_of v) = num_of v"
  shows "sum_cells dt vs = Inr (Num (overflow dt (sum_list (map num_of vs))))"
proof (cases vs)
  case Nil
  then show ?thesis using assms(2) by (simp add: overflow_zero)
next
  case (Cons v ws)
  with assms(1) obtain b where v: "v = Num b" by (cases v) auto
  have "overflow dt b = b" using assms(3) Cons v by simp
  moreover have "list_all is_num ws" using assms(1) Cons by simp
  ultimately have "sum_from dt (Num b) ws =
      Inr (Num (overflow dt (b + sum_list (map num_of ws))))"
    by (intro sum_from_num)
  then show ?thesis using Cons v by simp
qed

lemma column_dtype_num:
  assumes "list_all is_num vs"
  shows "column_dtype vs \<noteq> Text" and "\<forall>v\<in>set vs. overflow (column_dtype vs) (num_of v) = num_of v"
proof -
  have excl: "\<not> (is_str v \<and> is_num v)" for v
    by (cases v) simp_all
  have "\<not> list_ex is_str vs"
  proof
    assume "list_ex is_str vs"
    then obtain v where "v \<in> set vs" and "is_str v" by (auto simp: list_ex_iff)
    moreover from this assms have "is_num v" by (simp add: list_all_iff)
    ultimately show False using excl by blast
  qed
  then show "column_dtype vs \<noteq> Text"
    by (simp add: column_dtype_def)
  show "\<forall>v\<in>set vs. overflow (column_dtype vs) (num_of v) = num_of v"
  proof
    fix v assume v: "v \<in> set vs"
    show "overflow (column_dtype vs) (num_of v) = num_of v"
    proof (cases "list_all (\<lambda>v. is_num v \<and> in_int64 (num_of v)) vs")
      case True
      then have "column_dtype vs = Int64" and "in_int64 (num_of v)"
        using v by (simp_all add: column_dtype_def list_all_iff)
      then show ?thesis by (simp add: wrap64_id)
    next
      case False
      show ?thesis
      proof (cases "list_all (\<lambda>v. is_num v \<and> in_uint64 (num_of v)) vs")
        case True
        then have "column_dtype vs = UInt64" and "in_uint64 (num_of v)"
          using False v by (simp_all add: column_dtype_def list_all_iff)
        then show ?thesis by (simp add: in_uint64_def)
      next
        case no: False
        have "column_dtype vs = Text \<or> column_dtype vs = Object"
          using False no by (simp add: column_dtype_def)
        then show ?thesis by auto
      qed
    qed
  qed
qed

lemma sum_columns_num:
  assumes "\<forall>r\<in>set (rows df). \<forall>c\<in>set cs. is_num (cell_at r c)"
    and "set rs \<subseteq> set (rows df)"
  shows "sum_columns df rs cs =
    Inr (map (\<lambda>c. (c, Num (overflow (dtype_of df c)
                                  (sum_list (map (\<lambda>r. num_of (cell_at r c)) rs))))) cs)"
  using assms(1)
proof (induction cs)
  case Nil
  then show ?case by simp
next
  case (Cons c cs)
  let ?col = "map (\<lambda>r. cell_at r c) (rows df)"
  have col: "list_all is_num ?col"
    using Cons.prems by (simp add: list_all_iff)
  have grp: "list_all is_num (map (\<lambda>r. cell_at r c) rs)"
    using Cons.prems assms(2) by (auto simp: list_all_iff)
  have "\<forall>v\<in>set (map (\<lambda>r. cell_at r c) rs). overflow (dtype_of df c) (num_of v) = num_of v"
    using column_dtype_num(2)[OF col] assms(2) by (auto simp: dtype_of_def)
  with grp column_dtype_num(1)[OF col]
  have "sum_cells (dtype_of df c) (map (\<lambda>r. cell_at r c) rs) =
      Inr (Num (overflow (dtype_of df c) (sum_list (map num_of (map (\<lambda>r. cell_at r c) rs)))))"
    by (intro sum_cells_num) (simp_all add: dtype_of_def)
  moreover have "sum_columns df rs cs =
      Inr (map (\<lambda>c. (c, Num (overflow (dtype_of df c)
                                    (sum_list (map (\<lambda>r. num_of (cell_at r c)) rs))))) cs)"
    using Cons by simp
  ultimately show ?case by (simp add: comp_def)
qed

lemma sum_groups_num:
  assumes "numeric df"
  shows "sum_groups \<lparr>obj = df, key = ''Semana'', sel = METRICS\<rparr> ks = Inr (map (week_entry df) ks)"
proof (induction ks)
  case Nil
  then show ?case by simp
next
  case (Cons k ks)
  let ?g = "\<lparr>obj = df, key = ''Semana'', sel = METRICS\<rparr>"
  have rows: "group_rows ?g k = filter (\<lambda>r. week_of r = k) (rows df)"
    by (simp add: group_rows_def week_of_def)
  have "\<forall>r\<in>set (rows df). \<forall>c\<in>set METRICS. is_num (cell_at r c)"
    using assms by (auto simp: numeric_def list_all_iff)
  moreover have "set (group_rows ?g k) \<subseteq> set (rows df)"
    by (auto simp: rows)
  ultimately have "sum_columns df (group_rows ?g k) METRICS = Inr (snd (week_entry df k))"
    by (simp add: sum_columns_num week_entry_def week_total_def rows)
  with Cons show ?case by (simp add: week_entry_def)
qed

lemma group_keys_num:
  assumes "numeric df"
  shows "group_keys \<lparr>obj = df, key = ''Semana'', sel = METRICS\<rparr> = remdups (map week_of (rows df))"
proof -
  have "filter (\<lambda>v. v \<noteq> NA) (map week_of (rows df)) = map week_of (rows df)"
    using assms by (auto simp: numeric_def list_all_iff filter_id_conv)
  then show ?thesis
    by (simp add: group_keys_def week_of_def[abs_def])
qed

lemma insort_key_map:
  "insort_key f (g x) (map g xs) = map g (insort_key (\<lambda>y. f (g y)) x xs)"
  by (induction xs) auto

lemma sort_key_map:
  "sort_key f (map g xs) = map g (sort_key (\<lambda>y. f (g y)) xs)"
  by (induction xs) (auto simp: insort_key_map)

lemma sort_num_cells:
  assumes "list_all is_num ks"
  shows "sort_key num_of (remdups ks) = map Num (sorted_list_of_set (num_of ` set ks))"
proof -
  let ?s = "sort_key num_of (remdups ks)"
  have all: "\<forall>k\<in>set ?s. k = Num (num_of k)"
    using assms by (auto simp: list_all_iff is_num_conv[symmetric])
  have "inj_on num_of (set ?s)"
  proof (rule inj_onI)
    fix a b assume "a \<in> set ?s" "b \<in> set ?s" "num_of a = num_of b"
    with all show "a = b" by metis
  qed
  then have "distinct (map num_of ?s)"
    by (simp add: distinct_map)
  moreover have "sorted (map num_of ?s)"
    by (rule sorted_sort_key)
  moreover have "set (map num_of ?s) = num_of ` set ks"
    by simp
  ultimately have "map num_of ?s = sorted_list_of_set (num_of ` set ks)"
    by (metis sorted_list_of_set.idem_if_sorted_distinct)
  moreover have "map (\<lambda>k. Num (num_of k)) ?s = ?s"
    using all by (intro map_idI) simp
  then have "?s = map Num (map num_of ?s)"
    by (simp add: comp_def)
  ultimately show ?thesis by simp
qed

text \<open>
  The weekly table in closed form: one entry of totals for each week number, in
  ascending order.
\<close>

lemma weekly_table_numeric:
  assumes "has_columns df" and "numeric df"
  shows "weekly_table df = Inr (map (week_entry df) (map Num (sorted_list_of_set (week_numbers df))))"
proof -
  let ?g = "\<lparr>obj = df, key = ''Semana'', sel = METRICS\<rparr>"
  let ?ks = "remdups (map week_of (rows df))"
  have nums: "list_all is_num (map week_of (rows df))"
    using assms(2) by (simp add: numeric_def list_all_iff)
  have "gb_sum ?g = Inr (map (week_entry df) ?ks)"
    by (simp add: gb_sum_def group_keys_num[OF assms(2)] sum_groups_num[OF assms(2)])
  moreover have "list_all (\<lambda>e. is_num (fst e)) (map (week_entry df) ?ks)"
    using nums by (simp add: list_all_iff week_entry_def)
  then have "sort_index (map (week_entry df) ?ks) =
      Inr (map (week_entry df) (sort_key num_of ?ks))"
    by (simp add: sort_index_def sort_key_map week_entry_def)
  moreover have "sort_key num_of ?ks = map Num (sorted_list_of_set (week_numbers df))"
    using sort_num_cells[OF nums] by (simp add: week_numbers_def image_image)
  ultimately show ?thesis
    by (simp add: weekly_table_def select_metrics_ok[OF assms(1)])
qed

lemma map_of_graph:
  "k \<in> set ks \<Longrightarrow> map_of (map (\<lambda>k. (k, f k)) ks) k = Some (f k)"
  by (induction ks) auto






lemma finite_week_numbers: "finite (week_numbers df)"
  by (simp add: week_numbers_def)

lemma set_week_list: "set (sorted_list_of_set (week_numbers df)) = week_numbers df"
  by (simp add: finite_week_numbers)


lemma two_weeks_ok: "has_columns two_weeks" "numeric two_weeks"
  by (simp_all add: has_columns_def numeric_def two_weeks_def METRICS_def week_of_def cell_at_def)






text \<open>
  C2. For such a table the weekly table has exactly one row for each distinct week
  value of the input: as many rows as there are distinct weeks, the weeks of the input
  as its index, no week twice, in strictly ascending order.
\<close>

theorem weekly_one_row_per_week:
  assumes "has_columns df" and "numeric df"
  shows "\<exists>w. weekly_table df = Inr w \<and>
    length w = card (week_of ` set (rows df)) \<and>
    set (index_of w) = week_of ` set (rows df) \<and>
    distinct (index_of w) \<and>
    sorted_wrt (<) (map num_of (index_of w))"
proof -
  let ?ns = "sorted_list_of_set (week_numbers df)"
  let ?w = "map (week_entry df) (map Num ?ns)"
  have w: "weekly_table df = Inr ?w"
    using assms by (rule weekly_table_numeric)
  have idx: "index_of ?w = map Num ?ns"
    by (simp add: index_of_def week_entry_def comp_def)
  have nums: "\<forall>r\<in>set (rows df). week_of r = Num (num_of (week_of r))"
    using assms(2) by (simp add: numeric_def list_all_iff is_num_conv[symmetric])
  have "Num ` week_numbers df = (\<lambda>r. Num (num_of (week_of r))) ` set (rows df)"
    by (simp add: week_numbers_def image_image)
  also have "\<dots> = week_of ` set (rows df)"
    using nums by (intro image_cong) simp_all
  finally have weeks: "Num ` week_numbers df = week_of ` set (rows df)" .
  have "card (Num ` week_numbers df) = card (week_numbers df)"
    by (intro card_image) (simp add: inj_on_def)
  then have "card (week_of ` set (rows df)) = card (week_numbers df)"
    by (simp only: weeks)
  moreover have "length ?ns = card (week_numbers df)"
    by (simp add: finite_week_numbers)
  ultimately have len: "length ?w = card (week_of ` set (rows df))"
    by (simp only: length_map)
  have keys: "set (index_of ?w) = week_of ` set (rows df)"
    by (simp only: idx set_map set_week_list weeks)
  have "distinct (map Num ?ns)"
    by (simp add: distinct_map inj_on_def)
  then have dist: "distinct (index_of ?w)"
    by (simp only: idx)
  have "map num_of (map Num ?ns) = ?ns"
    by (simp add: comp_def)
  moreover have "sorted_wrt (<) ?ns"
    by (simp add: strict_sorted_iff)
  ultimately have asc: "sorted_wrt (<) (map num_of (index_of ?w))"
    by (simp only: idx)
  from w len keys dist asc show ?thesis
    by (intro exI[of _ ?w] conjI)
qed

theorem weekly_one_row_per_week_witness:
  "has_columns two_weeks \<and> numeric two_weeks \<and>
   weekly_table two_weeks =
     Inr [(Num 1, [(''Venda'', Num 10), (''Alvo'', Num 12), (''Reposicao'', Num 2),
                   (''Estoque'', Num 50)]),
          (Num 2, [(''Venda'', Num 11), (''Alvo'', Num 12), (''Reposicao'', Num 1),
                   (''Estoque'', Num 55)])] \<and>
   (\<exists>w. weekly_table two_weeks = Inr w \<and>
      length w = card (week_of ` set (rows two_weeks)) \<and>
      set (index_of w) = week_of ` set (rows two_weeks) \<and>
      distinct (index_of w) \<and>
      sorted_wrt (<) (map num_of (index_of w)))"
proof -
  have "weekly_table two_weeks =
     Inr [(Num 1, [(''Venda'', Num 10), (''Alvo'', Num 12), (''Reposicao'', Num 2),
                   (''Estoque'', Num 50)]),
          (Num 2, [(''Venda'', Num 11), (''Alvo'', Num 12), (''Reposicao'', Num 1),
                   (''Estoque'', Num 55)])]"
    by (simp add: two_weeks_def cell_at_def METRICS_def select_metrics_def
        groupby_def getitem_def weekly_table_def gb_sum_def group_keys_def group_rows_def
        sort_index_def dtype_of_def column_dtype_def in_int64_def wrap64_def)
  then show ?thesis
    using two_weeks_ok weekly_one_row_per_week[OF two_weeks_ok] by simp
qed

subsection \<open>Columns that are not read\<close>

lemma filter_agree:
  assumes "list_all2 (\<lambda>a b. f a = f b \<and> g a = g b) xs ys"
  shows "map g (filter (\<lambda>a. f a = k) xs) = map g (filter (\<lambda>b. f b = k) ys)"
  using assms by (induction rule: list_all2_induct) auto

lemma map_agree:
  assumes "list_all2 (\<lambda>a b. f a = f b) xs ys"
  shows "map f xs = map f ys"
  using assms by (induction rule: list_all2_induct) auto

lemma dtype_of_agree:
  assumes "list_all2 agree (rows d1) (rows d2)" and "c \<in> set METRICS"
  shows "dtype_of d1 c = dtype_of d2 c"
proof -
  have "list_all2 (\<lambda>a b. cell_at a c = cell_at b c) (rows d1) (rows d2)"
    using assms by (auto simp: agree_def elim!: list_all2_mono)
  then have "map (\<lambda>r. cell_at r c) (rows d1) = map (\<lambda>r. cell_at r c) (rows d2)"
    by (rule map_agree)
  then show ?thesis by (simp add: dtype_of_def)
qed

lemma sum_columns_agree:
  assumes "list_all2 agree (rows d1) (rows d2)" and "set cs \<subseteq> set METRICS"
  shows "sum_columns d1 (group_rows \<lparr>obj = d1, key = ''Semana'', sel = s1\<rparr> k) cs =
         sum_columns d2 (group_rows \<lparr>obj = d2, key = ''Semana'', sel = s2\<rparr> k) cs"
  using assms(2)
proof (induction cs)
  case Nil
  then show ?case by simp
next
  case (Cons c cs)
  then have c: "c \<in> set METRICS" by simp
  have "list_all2 (\<lambda>a b. cell_at a ''Semana'' = cell_at b ''Semana'' \<and> cell_at a c = cell_at b c)
      (rows d1) (rows d2)"
    using assms(1) c by (auto simp: agree_def elim!: list_all2_mono)
  then have "map (\<lambda>r. cell_at r c) (filter (\<lambda>r. cell_at r ''Semana'' = k) (rows d1)) =
      map (\<lambda>r. cell_at r c) (filter (\<lambda>r. cell_at r ''Semana'' = k) (rows d2))"
    by (rule filter_agree)
  moreover have "dtype_of d1 c = dtype_of d2 c"
    using assms(1) c by (rule dtype_of_agree)
  ultimately show ?case
    using Cons by (simp add: group_rows_def cong: sum.case_cong)
qed

lemma sum_groups_agree:
  assumes "list_all2 agree (rows d1) (rows d2)"
  shows "sum_groups \<lparr>obj = d1, key = ''Semana'', sel = METRICS\<rparr> ks =
         sum_groups \<lparr>obj = d2, key = ''Semana'', sel = METRICS\<rparr> ks"
proof (induction ks)
  case Nil
  then show ?case by simp
next
  case (Cons k ks)
  have "sum_columns d1 (group_rows \<lparr>obj = d1, key = ''Semana'', sel = METRICS\<rparr> k) METRICS =
        sum_columns d2 (group_rows \<lparr>obj = d2, key = ''Semana'', sel = METRICS\<rparr> k) METRICS"
    using assms by (rule sum_columns_agree) simp
  with Cons show ?case by (simp cong: sum.case_cong)
qed

lemma group_keys_agree:
  assumes "list_all2 agree (rows d1) (rows d2)"
  shows "group_keys \<lparr>obj = d1, key = ''Semana'', sel = s1\<rparr> =
         group_keys \<lparr>obj = d2, key = ''Semana'', sel = s2\<rparr>"
proof -
  have "list_all2 (\<lambda>a b. cell_at a ''Semana'' = cell_at b ''Semana'') (rows d1) (rows d2)"
    using assms by (auto simp: agree_def elim!: list_all2_mono)
  then have "map (\<lambda>r. cell_at r ''Semana'') (rows d1) = map (\<lambda>r. cell_at r ''Semana'') (rows d2)"
    by (rule map_agree)
  then show ?thesis by (simp add: group_keys_def)
qed

text \<open>
  C10. When two tables have the same ones of the five columns and their rows agree,
  one by one, on the week and on the four metrics, their weekly tables are the same,
  and so is all that \<open>plot_projections\<close> does: no other column is read.
\<close>

theorem other_columns_no_influence:
  assumes "\<forall>c \<in> insert ''Semana'' (set METRICS). c \<in> set (columns d1) \<longleftrightarrow> c \<in> set (columns d2)"
    and "list_all2 agree (rows d1) (rows d2)"
  shows "weekly_table d1 = weekly_table d2 \<and>
         plot_projections render d1 output fs = plot_projections render d2 output fs"
proof -
  have "weekly_table d1 = weekly_table d2"
  proof (cases "has_columns d1")
    case True
    with assms(1) have "has_columns d2"
      by (auto simp: has_columns_def)
    have "gb_sum \<lparr>obj = d1, key = ''Semana'', sel = METRICS\<rparr> =
          gb_sum \<lparr>obj = d2, key = ''Semana'', sel = METRICS\<rparr>"
      using group_keys_agree[OF assms(2), of METRICS METRICS] sum_groups_agree[OF assms(2)]
      by (simp add: gb_sum_def)
    then show ?thesis
      by (simp add: weekly_table_def select_metrics_ok[OF True] select_metrics_ok[OF \<open>has_columns d2\<close>])
  next
    case False
    then have m1: "''Semana'' \<notin> set (columns d1) \<or> \<not> set METRICS \<subseteq> set (columns d1)"
      by (simp add: has_columns_def)
    with assms(1) have m2: "''Semana'' \<notin> set (columns d2) \<or> \<not> set METRICS \<subseteq> set (columns d2)"
      by auto
    have "filter (\<lambda>c. c \<notin> set (columns d1)) METRICS = filter (\<lambda>c. c \<notin> set (columns d2)) METRICS"
      using assms(1) by (intro filter_cong) auto
    moreover have "''Semana'' \<in> set (columns d1) \<longleftrightarrow> ''Semana'' \<in> set (columns d2)"
      using assms(1) by simp
    ultimately have "select_metrics d1 = select_metrics d2"
      by (simp add: select_metrics_missing[OF m1] select_metrics_missing[OF m2])
    then show ?thesis
      using select_metrics_missing[OF m2] by (simp add: weekly_table_def)
  qed
  then show ?thesis
    by (simp add: plot_projections_def)
qed

theorem other_columns_no_influence_witness:
  "has_columns spec_example \<and> has_columns relabelled_example \<and>
   list_all2 agree (rows spec_example) (rows relabelled_example) \<and>
   map (\<lambda>r. cell_at r ''FILIAL'') (rows spec_example) \<noteq>
     map (\<lambda>r. cell_at r ''FILIAL'') (rows relabelled_example) \<and>
   weekly_table spec_example = weekly_table relabelled_example \<and>
   plot_projections keep_figure spec_example [''outputs'', ''projecoes.png''] empty_disk =
     plot_projections keep_figure relabelled_example [''outputs'', ''projecoes.png''] empty_disk"
proof -
  have a: "\<forall>c \<in> insert ''Semana'' (set METRICS).
      c \<in> set (columns spec_example) \<longleftrightarrow> c \<in> set (columns relabelled_example)"
    by (simp add: spec_example_def relabelled_example_def)
  have b: "list_all2 agree (rows spec_example) (rows relabelled_example)"
    by (simp add: spec_example_def relabelled_example_def agree_def METRICS_def mk_row_def
        cell_at_def)
  have c: "map (\<lambda>r. cell_at r ''FILIAL'') (rows spec_example) \<noteq>
     map (\<lambda>r. cell_at r ''FILIAL'') (rows relabelled_example)"
    by (simp add: spec_example_def relabelled_example_def mk_row_def cell_at_def)
  have d: "has_columns spec_example" "has_columns relabelled_example"
    by (simp_all add: has_columns_def spec_example_def relabelled_example_def METRICS_def)
  from b c d
    other_columns_no_influence[OF a b, of keep_figure "[''outputs'', ''projecoes.png'']" empty_disk]
  show ?thesis by simp
qed

subsection \<open>Creating the output directory\<close>

lemma ancestors_snoc: "ancestors (p @ [c]) = ancestors p @ [p @ [c]]"
  by (simp add: ancestors_def)

lemma set_ancestors: "set (ancestors p) = {take n p |n. n \<le> length p}"
proof -
  have "set (ancestors p) = (\<lambda>n. take n p) ` {0..<Suc (length p)}"
    by (simp only: ancestors_def set_map set_upt)
  also have "\<dots> = {take n p |n. n \<le> length p}"
    by (auto simp: less_Suc_eq_le)
  finally show ?thesis .
qed

lemma walk_result:
  "walk fs pre cs = None \<or> walk fs pre cs = Some FileNotFoundError \<or>
   walk fs pre cs = Some NotADirectoryError"
  by (induction cs arbitrary: pre) (auto split: option.splits node.splits)

lemma walk_None_iff:
  "walk fs pre cs = None \<longleftrightarrow> (\<forall>n < length cs. is_dir fs (pre @ take n cs))"
proof (induction cs arbitrary: pre)
  case Nil
  then show ?case by simp
next
  case (Cons c cs)
  have "(\<forall>n < length (c # cs). is_dir fs (pre @ take n (c # cs))) \<longleftrightarrow>
        is_dir fs pre \<and> (\<forall>n < length cs. is_dir fs ((pre @ [c]) @ take n cs))"
    (is "?l \<longleftrightarrow> ?r")
  proof
    assume l: ?l
    have "is_dir fs (pre @ take 0 (c # cs))" using l by blast
    moreover have "is_dir fs ((pre @ [c]) @ take n cs)" if "n < length cs" for n
      using l[rule_format, of "Suc n"] that by simp
    ultimately show ?r by simp
  next
    assume r: ?r
    show ?l
    proof (intro allI impI)
      fix n assume "n < length (c # cs)"
      then show "is_dir fs (pre @ take n (c # cs))"
        using r by (cases n) auto
    qed
  qed
  with Cons show ?case
    by (auto simp: is_dir_def split: option.splits node.splits)
qed

lemma walk_no_file:
  assumes "\<forall>n < length cs. \<not> is_file fs (pre @ take n cs)"
  shows "walk fs pre cs \<noteq> Some NotADirectoryError"
  using assms
proof (induction cs arbitrary: pre)
  case Nil
  then show ?case by simp
next
  case (Cons c cs)
  have "\<not> is_file fs pre" using Cons.prems by force
  moreover have "\<forall>n < length cs. \<not> is_file fs ((pre @ [c]) @ take n cs)"
  proof (intro allI impI)
    fix n assume "n < length cs"
    then show "\<not> is_file fs ((pre @ [c]) @ take n cs)"
      using Cons.prems[rule_format, of "Suc n"] by simp
  qed
  then have "walk fs (pre @ [c]) cs \<noteq> Some NotADirectoryError"
    by (rule Cons.IH)
  ultimately show ?case
    by (auto simp: is_file_def split: option.splits node.splits)
qed

lemma walk_dirs:
  assumes "\<forall>q \<in> set (ancestors p). is_dir fs q"
  shows "walk fs [] (p @ [c]) = None"
proof -
  have "is_dir fs ([] @ take n (p @ [c]))" if "n < length (p @ [c])" for n
  proof -
    from that have "n \<le> length p" by simp
    then have "take n (p @ [c]) = take n p" by simp
    moreover have "take n p \<in> set (ancestors p)"
      using \<open>n \<le> length p\<close> by (auto simp: set_ancestors)
    ultimately show ?thesis using assms by simp
  qed
  then show ?thesis by (simp only: walk_None_iff) blast
qed

lemma walk_clear:
  assumes "clear_way fs p"
  shows "walk fs [] p = None \<or> walk fs [] p = Some FileNotFoundError"
proof -
  have "\<not> is_file fs ([] @ take n p)" if "n < length p" for n
  proof -
    have "take n p \<in> set (ancestors p)"
      using that by (auto simp: set_ancestors intro!: exI[of _ n])
    then show ?thesis using assms by (simp add: clear_way_def list_all_iff)
  qed
  then have "walk fs [] p \<noteq> Some NotADirectoryError"
    by (intro walk_no_file) blast
  then show ?thesis using walk_result[of fs "[]" p] by blast
qed

lemma clear_way_snoc:
  "clear_way fs (p @ [c]) \<longleftrightarrow> clear_way fs p \<and> \<not> is_file fs (p @ [c])"
  by (simp add: clear_way_def ancestors_snoc)

lemma with_dirs_dirs:
  assumes "clear_way fs p" and "q \<in> set (ancestors p)"
  shows "is_dir (with_dirs fs p) q"
proof (cases "q = []")
  case True
  then show ?thesis by (simp add: is_dir_def lookup_def)
next
  case False
  have "\<not> is_file fs q" using assms by (simp add: clear_way_def list_all_iff)
  then show ?thesis using assms(2) False
    by (auto simp: is_dir_def lookup_def with_dirs_def is_file_def split: option.splits node.splits)
qed

lemma with_dirs_snoc:
  assumes "lookup fs (p @ [c]) = None"
  shows "(with_dirs fs p)(p @ [c] \<mapsto> Dir) = with_dirs fs (p @ [c])"
proof
  fix q
  show "((with_dirs fs p)(p @ [c] \<mapsto> Dir)) q = with_dirs fs (p @ [c]) q"
    using assms by (auto simp: with_dirs_def ancestors_snoc)
qed

lemma with_dirs_snoc_dir:
  assumes "is_dir fs (p @ [c])"
  shows "with_dirs fs p = with_dirs fs (p @ [c])"
proof
  fix q
  show "with_dirs fs p q = with_dirs fs (p @ [c]) q"
    using assms by (auto simp: with_dirs_def ancestors_snoc is_dir_def)
qed

lemma lookup_with_dirs_other:
  "q \<notin> set (ancestors p) \<Longrightarrow> lookup (with_dirs fs p) q = lookup fs q"
  by (simp add: lookup_def with_dirs_def)

lemma snoc_not_ancestor: "p @ [c] \<notin> set (ancestors p)"
  by (auto simp: set_ancestors dest: arg_cong[where f = length])

lemma with_dirs_id:
  assumes "\<forall>q \<in> set (ancestors p). is_dir fs q"
  shows "with_dirs fs p = fs"
proof
  fix q
  show "with_dirs fs p q = fs q"
    using assms by (auto simp: with_dirs_def is_dir_def)
qed

lemma mkdir_parents_clear:
  assumes "clear_way fs p"
  shows "mkdir_parents fs p = (Inr (), with_dirs fs p)"
  using assms
proof (induction p rule: rev_induct)
  case Nil
  have "os_mkdir fs [] = Inl FileExistsError"
    by (simp add: os_mkdir_def lookup_def)
  moreover have "with_dirs fs [] = fs"
    by (rule with_dirs_id) (simp add: ancestors_def is_dir_def lookup_def)
  ultimately show ?case
    by (simp add: mkdir_parents.simps[of fs "[]"] is_dir_def lookup_def)
next
  case (snoc c p)
  let ?p = "p @ [c]"
  from snoc.prems have clear: "clear_way fs p" and nofile: "\<not> is_file fs ?p"
    by (simp_all add: clear_way_snoc)
  have target: "lookup fs ?p = None \<or> is_dir fs ?p"
    using nofile by (auto simp: is_file_def is_dir_def split: option.splits node.splits)
  from walk_clear[OF snoc.prems] show ?case
  proof
    assume w: "walk fs [] ?p = None"
    then have "\<forall>n < length ?p. is_dir fs (take n ?p)"
      using walk_None_iff[of fs "[]" ?p] by simp
    then have dirs: "\<forall>q \<in> set (ancestors p). is_dir fs q"
      by (auto simp: set_ancestors)
    then have same: "with_dirs fs p = fs" by (rule with_dirs_id)
    from target show ?thesis
    proof
      assume "lookup fs ?p = None"
      then show ?thesis
        using w with_dirs_snoc[of fs p c] same
        by (simp add: mkdir_parents.simps[of fs ?p] os_mkdir_def)
    next
      assume d: "is_dir fs ?p"
      then have "os_mkdir fs ?p = Inl FileExistsError"
        using w by (simp add: os_mkdir_def is_dir_def)
      then show ?thesis
        using d with_dirs_snoc_dir[OF d] same
        by (simp add: mkdir_parents.simps[of fs ?p])
    qed
  next
    assume w: "walk fs [] ?p = Some FileNotFoundError"
    then have os: "os_mkdir fs ?p = Inl FileNotFoundError"
      by (simp add: os_mkdir_def)
    have rec: "mkdir_parents fs p = (Inr (), with_dirs fs p)"
      using clear by (rule snoc.IH)
    let ?fs1 = "with_dirs fs p"
    have w1: "walk ?fs1 [] ?p = None"
      using with_dirs_dirs[OF clear] by (intro walk_dirs) blast
    have l1: "lookup ?fs1 ?p = lookup fs ?p"
      using snoc_not_ancestor by (rule lookup_with_dirs_other)
    from target have "mkdir_exist_ok ?fs1 ?p = Inr (with_dirs fs ?p)"
    proof
      assume n: "lookup fs ?p = None"
      then show ?thesis
        using w1 l1 with_dirs_snoc[OF n] by (simp add: mkdir_exist_ok_def os_mkdir_def)
    next
      assume d: "is_dir fs ?p"
      then have "is_dir ?fs1 ?p" using l1 by (simp add: is_dir_def)
      then show ?thesis
        using w1 with_dirs_snoc_dir[OF d] by (simp add: mkdir_exist_ok_def os_mkdir_def is_dir_def)
    qed
    then show ?thesis
      using os rec by (simp add: mkdir_parents.simps[of fs ?p] parent_def)
  qed
qed

lemma ancestors_length: "q \<in> set (ancestors p) \<Longrightarrow> length q \<le> length p"
  by (auto simp: set_ancestors)

lemma parent_not_self:
  assumes "output \<noteq> []"
  shows "output \<notin> set (ancestors (parent output))"
proof
  assume "output \<in> set (ancestors (parent output))"
  then have "length output \<le> length (parent output)"
    by (rule ancestors_length)
  moreover have "length (parent output) < length output"
    using assms by (simp add: parent_def)
  ultimately show False
    by simp
qed

lemma savefig_after_mkdir:
  assumes "render fig output = Inr (output, img)"
    and "clear_way fs (parent output)"
    and "\<not> is_dir fs output"
  shows "savefig render fig output (with_dirs fs (parent output)) =
         Inr ((with_dirs fs (parent output))(output \<mapsto> File img))"
proof -
  let ?fs1 = "with_dirs fs (parent output)"
  from assms(3) have ne: "output \<noteq> []"
    by (auto simp: is_dir_def lookup_def)
  then have out: "output = parent output @ [last output]"
    by (simp add: parent_def)
  have "walk ?fs1 [] (parent output @ [last output]) = None"
    using with_dirs_dirs[OF assms(2)] by (intro walk_dirs) blast
  then have w: "walk ?fs1 [] output = None"
    using out by simp
  have "lookup ?fs1 output = lookup fs output"
    using parent_not_self[OF ne] by (rule lookup_with_dirs_other)
  then have "lookup ?fs1 output \<noteq> Some Dir"
    using assms(3) by (simp add: is_dir_def)
  then have "write_file ?fs1 output img = Inr (?fs1(output \<mapsto> File img))"
    using w by (simp add: write_file_def split: option.splits node.splits)
  then show ?thesis
    using assms(1) by (simp add: savefig_def)
qed

lemma check_units_num:
  assumes "list_all is_num vs"
  shows "check_units vs = None"
proof (cases "filter (\<lambda>v. v \<noteq> NA) vs")
  case Nil
  then show ?thesis by (simp add: check_units_def)
next
  case (Cons v rest)
  have sub: "set (v # rest) \<subseteq> set vs"
    using Cons by (metis filter_is_subset)
  have excl: "\<not> (is_str u \<and> is_num u)" for u
    by (cases u) simp_all
  have "is_num v"
    using sub assms by (simp add: list_all_iff)
  moreover have "\<not> list_ex is_str rest"
  proof
    assume "list_ex is_str rest"
    then obtain u where "u \<in> set rest" and "is_str u" by (auto simp: list_ex_iff)
    moreover from this sub assms have "is_num u" by (auto simp: list_all_iff)
    ultimately show False using excl by blast
  qed
  ultimately show ?thesis
    using Cons by (simp add: check_units_def)
qed

lemma column_of_entries:
  assumes "m \<in> set METRICS"
  shows "column_of (map (week_entry df) ks) m =
         map (\<lambda>k. Num (overflow (dtype_of df m) (week_total df k m))) ks"
proof -
  have "map_of (map (\<lambda>m. (m, Num (overflow (dtype_of df m) (week_total df k m)))) METRICS) m =
      Some (Num (overflow (dtype_of df m) (week_total df k m)))" for k
    using assms by (rule map_of_graph)
  then show ?thesis
    by (simp add: column_of_def week_entry_def cell_at_def)
qed

lemma plot_all_ok:
  assumes "check_units (index_of w) = None"
    and "\<forall>mt\<in>set mts. check_units (column_of w (fst mt)) = None"
  shows "\<exists>as. plot_all w mts = Inr as"
  using assms(2)
proof (induction mts)
  case Nil
  then show ?case by simp
next
  case (Cons mt mts)
  then obtain as where "plot_all w mts = Inr as" by auto
  moreover have "check_units (column_of w (fst mt)) = None"
    using Cons.prems by simp
  ultimately show ?case
    using assms(1) by (simp add: plot_metric_def plot_def)
qed

lemma draw_numeric:
  assumes "list_all is_num ks"
  shows "\<exists>fig. draw (map (week_entry df) ks) = Inr fig"
proof -
  let ?w = "map (week_entry df) ks"
  have "index_of ?w = ks"
    by (simp add: index_of_def week_entry_def comp_def)
  then have x: "check_units (index_of ?w) = None"
    using assms by (simp add: check_units_num)
  have "check_units (column_of ?w (fst mt)) = None" if "mt \<in> set (zip METRICS TITLES)" for mt
  proof -
    have "(fst mt, snd mt) \<in> set (zip METRICS TITLES)"
      using that by simp
    then have "fst mt \<in> set METRICS"
      by (rule set_zip_leftD)
    then have "column_of ?w (fst mt) =
        map (\<lambda>k. Num (overflow (dtype_of df (fst mt)) (week_total df k (fst mt)))) ks"
      by (rule column_of_entries)
    then show ?thesis
      by (simp add: check_units_num list_all_iff)
  qed
  then have "\<exists>as. plot_all ?w (zip METRICS TITLES) = Inr as"
    using x by (intro plot_all_ok) simp_all
  then show ?thesis
    by (auto simp: draw_def)
qed

lemma weekly_chart_numeric:
  assumes "has_columns df" and "numeric df"
  shows "\<exists>w fig. weekly_table df = Inr w \<and> draw w = Inr fig"
proof -
  let ?ks = "map Num (sorted_list_of_set (week_numbers df))"
  have "weekly_table df = Inr (map (week_entry df) ?ks)"
    using assms by (rule weekly_table_numeric)
  moreover have "list_all is_num ?ks"
    by (simp add: list_all_iff)
  then have "\<exists>fig. draw (map (week_entry df) ?ks) = Inr fig"
    by (rule draw_numeric)
  ultimately show ?thesis by blast
qed

lemma plot_projections_writes:
  assumes "weekly_table df = Inr w"
    and "draw w = Inr fig"
    and "render fig output = Inr (output, img)"
    and "clear_way fs (parent output)"
    and "\<not> is_dir fs output"
  shows "plot_projections render df output fs =
         (Inr (), (with_dirs fs (parent output))(output \<mapsto> File img))"
  using assms(1,2) mkdir_parents_clear[OF assms(4)]
    savefig_after_mkdir[of render fig "output" img fs, OF assms(3-5)]
  by (simp add: plot_projections_def)



lemma empty_disk_clear:
  "clear_way empty_disk (parent chart_path)" "\<not> is_dir empty_disk chart_path"
  by (simp_all add: clear_way_def ancestors_def is_file_def is_dir_def lookup_def
      empty_disk_def chart_path_def parent_def)




text \<open>
  C8. The branch and product columns are not required: a table that has the week
  column and the four metric columns, with numbers in them, is charted without error
  (given an encoder that accepts the file name and a path that can be written),
  whether or not it has \<open>FILIAL\<close> and \<open>SKU\<close>.
\<close>

theorem branch_and_sku_not_required:
  assumes "has_columns df" and "numeric df"
    and "\<forall>fig. \<exists>img. render fig output = Inr (output, img)"
    and "clear_way fs (parent output)"
    and "\<not> is_dir fs output"
  shows "\<exists>fs'. plot_projections render df output fs = (Inr (), fs')"
proof -
  from weekly_chart_numeric[OF assms(1,2)] obtain w fig
    where w: "weekly_table df = Inr w" and f: "draw w = Inr fig"
    by blast
  from assms(3) obtain img where "render fig output = Inr (output, img)"
    by blast
  with w f have "plot_projections render df output fs =
         (Inr (), (with_dirs fs (parent output))(output \<mapsto> File img))"
    using assms(4,5) by (rule plot_projections_writes)
  then show ?thesis by blast
qed

theorem branch_and_sku_not_required_witness:
  "''FILIAL'' \<notin> set (columns two_weeks) \<and> ''SKU'' \<notin> set (columns two_weeks) \<and>
   has_columns two_weeks \<and> numeric two_weeks \<and>
   (\<forall>fig. \<exists>img. keep_figure fig chart_path = Inr (chart_path, img)) \<and>
   clear_way empty_disk (parent chart_path) \<and> \<not> is_dir empty_disk chart_path \<and>
   (\<exists>fs'. plot_projections keep_figure two_weeks chart_path empty_disk = (Inr (), fs'))"
proof -
  have cols: "''FILIAL'' \<notin> set (columns two_weeks)" "''SKU'' \<notin> set (columns two_weeks)"
    by (simp_all add: two_weeks_def)
  have r: "\<forall>fig. \<exists>img. keep_figure fig chart_path = Inr (chart_path, img)"
    by (simp add: keep_figure_def)
  from cols two_weeks_ok r empty_disk_clear
    branch_and_sku_not_required[of two_weeks keep_figure chart_path empty_disk,
      OF two_weeks_ok r empty_disk_clear]
  show ?thesis by simp
qed

end
